theory Spec2Isabelle
  imports
    Complex_Main
    "HOL-Library.Char_ord"
    "HOL-Library.List_Lexorder"
    "HOL-Library.Sublist"
    "HOL-Library.AList"
begin

section \<open>Python values, errors and dictionaries\<close>

text \<open>
  The module \<^verbatim>\<open>hypersearch.py\<close> works on dynamically typed values. A value is one of the
  primitives the hyper-parameter records hold, a dictionary (insertion ordered, string keys),
  a list, or one of two objects the module only passes on: the network class made by
  \<^verbatim>\<open>custom_net\<close> (kept as the layer list it was built from) and a
  \<^verbatim>\<open>tf.ConfigProto\<close> (kept as its GPU memory fraction).
  Python floats are modelled as exact reals: no rounding, no overflow, no NaN.
\<close>

datatype pyval =
    PNone
  | PBool bool
  | PInt int
  | PFloat real
  | PStr string
  | PDict "(string \<times> pyval) list"
  | PList "pyval list"
  | PNet pyval
  | PConfigProto real

datatype error =
    KeyError pyval
  | TypeError
  | ValueError
  | IndexError
  | AttributeError
  | UnboundLocalError string

type_synonym 'a result = "error + 'a"

type_synonym dict = "(string \<times> pyval) list"

text \<open>\<^verbatim>\<open>d[k] = v\<close> on a dict: an existing key keeps its position, a new key goes last.\<close>

definition dict_set :: "('k \<times> 'v) list \<Rightarrow> 'k \<Rightarrow> 'v \<Rightarrow> ('k \<times> 'v) list" where
  "dict_set d k v = AList.update k v d"

text \<open>\<^verbatim>\<open>d.update(e)\<close>: the entries of \<open>e\<close> are stored one by one, in order.\<close>

definition dict_update :: "('k \<times> 'v) list \<Rightarrow> ('k \<times> 'v) list \<Rightarrow> ('k \<times> 'v) list" where
  "dict_update d e = fold (\<lambda>(k, v) acc. dict_set acc k v) e d"

text \<open>\<^verbatim>\<open>d[k]\<close> on a dict with string keys.\<close>

definition dict_get :: "(string \<times> 'v) list \<Rightarrow> string \<Rightarrow> 'v result" where
  "dict_get d k = (case map_of d k of None \<Rightarrow> Inl (KeyError (PStr k)) | Some v \<Rightarrow> Inr v)"

text \<open>Truth value of a value, as \<^verbatim>\<open>if x\<close> and \<^verbatim>\<open>x and y\<close> take it.\<close>

fun truthy :: "pyval \<Rightarrow> bool" where
  "truthy PNone = False"
| "truthy (PBool b) = b"
| "truthy (PInt i) = (i \<noteq> 0)"
| "truthy (PFloat r) = (r \<noteq> 0)"
| "truthy (PStr s) = (s \<noteq> [])"
| "truthy (PDict d) = (d \<noteq> [])"
| "truthy (PList l) = (l \<noteq> [])"
| "truthy (PNet n) = True"
| "truthy (PConfigProto f) = True"

text \<open>The numeric value of a number (\<^verbatim>\<open>bool\<close> is a subclass of \<^verbatim>\<open>int\<close>).\<close>

fun num_of :: "pyval \<Rightarrow> real option" where
  "num_of (PBool b) = Some (of_bool b)"
| "num_of (PInt i) = Some (of_int i)"
| "num_of (PFloat r) = Some r"
| "num_of _ = None"

text \<open>\<^verbatim>\<open>x == y\<close>: numbers compare by value across bool, int and float.\<close>

definition py_eq :: "pyval \<Rightarrow> pyval \<Rightarrow> bool" where
  "py_eq x y = (case (num_of x, num_of y) of
                  (Some a, Some b) \<Rightarrow> a = b
                | (None, None) \<Rightarrow> x = y
                | _ \<Rightarrow> False)"

text \<open>\<^verbatim>\<open>x > t\<close> for a float \<open>t\<close>: defined on numbers, a \<^verbatim>\<open>TypeError\<close> otherwise.\<close>

definition py_gt :: "pyval \<Rightarrow> real \<Rightarrow> bool result" where
  "py_gt x t = (case num_of x of None \<Rightarrow> Inl TypeError | Some a \<Rightarrow> Inr (a > t))"

text \<open>Substring test, \<^verbatim>\<open>k in s\<close> for two strings.\<close>

fun substring :: "string \<Rightarrow> string \<Rightarrow> bool" where
  "substring k [] = (k = [])"
| "substring k (c # cs) = (prefix k (c # cs) \<or> substring k cs)"

text \<open>\<^verbatim>\<open>k in v\<close> for a string \<open>k\<close>.\<close>

fun py_contains :: "pyval \<Rightarrow> string \<Rightarrow> bool result" where
  "py_contains (PDict d) k = Inr (k \<in> set (map fst d))"
| "py_contains (PStr s) k = Inr (substring k s)"
| "py_contains (PList l) k = Inr (PStr k \<in> set l)"
| "py_contains _ k = Inl TypeError"

text \<open>\<^verbatim>\<open>v[k]\<close> for a string \<open>k\<close>: only a dict can be indexed by a string.\<close>

fun py_getitem :: "pyval \<Rightarrow> string \<Rightarrow> pyval result" where
  "py_getitem (PDict d) k = dict_get d k"
| "py_getitem _ k = Inl TypeError"

text \<open>\<^verbatim>\<open>v[k] = x\<close> for a string \<open>k\<close>.\<close>

fun py_setitem :: "pyval \<Rightarrow> string \<Rightarrow> pyval \<Rightarrow> pyval result" where
  "py_setitem (PDict d) k x = Inr (PDict (dict_set d k x))"
| "py_setitem _ k x = Inl TypeError"

text \<open>\<^verbatim>\<open>s.split(c)\<close>: never empty; an empty string gives one empty part.\<close>

fun split_on :: "char \<Rightarrow> string \<Rightarrow> string list" where
  "split_on c [] = [[]]"
| "split_on c (x # xs) =
     (if x = c then [] # split_on c xs
      else (case split_on c xs of [] \<Rightarrow> [[x]] | w # ws \<Rightarrow> (x # w) # ws))"

section \<open>DotDict: the nested-path store\<close>

text \<open>
  \<^verbatim>\<open>DotDict.__getitem__\<close>: walk the parts of the path; a part that is not in the current
  value ends the walk with \<^verbatim>\<open>None\<close>.
\<close>

fun getitem_walk :: "pyval \<Rightarrow> string list \<Rightarrow> pyval result" where
  "getitem_walk v [] = Inr v"
| "getitem_walk v (k # ks) =
     (case py_contains v k of
        Inl e \<Rightarrow> Inl e
      | Inr False \<Rightarrow> Inr PNone
      | Inr True \<Rightarrow>
          (case py_getitem v k of Inl e \<Rightarrow> Inl e | Inr w \<Rightarrow> getitem_walk w ks))"

definition DotDict_getitem :: "pyval \<Rightarrow> string \<Rightarrow> pyval result" where
  "DotDict_getitem data path = getitem_walk data (split_on CHR ''.'' path)"

text \<open>
  \<^verbatim>\<open>DotDict.__setitem__\<close>: the last part is assigned; before it, a part found in the
  current value is descended into whatever it holds, and a part not found is bound to a fresh
  empty dict. The Python mutates the nested dicts in place; the model returns the store
  after the assignment. An exception leaves the store as it was: the walk assigns nothing
  before it has met an absent part, and below a fresh dict nothing fails.
\<close>

fun setitem_walk :: "pyval \<Rightarrow> string list \<Rightarrow> pyval \<Rightarrow> pyval result" where
  "setitem_walk v [] val = Inr v"
| "setitem_walk v [k] val = py_setitem v k val"
| "setitem_walk v (k # k' # ks) val =
     (case py_contains v k of
        Inl e \<Rightarrow> Inl e
      | Inr True \<Rightarrow>
          (case py_getitem v k of
             Inl e \<Rightarrow> Inl e
           | Inr w \<Rightarrow>
               (case setitem_walk w (k' # ks) val of
                  Inl e \<Rightarrow> Inl e
                | Inr w' \<Rightarrow> py_setitem v k w'))
      | Inr False \<Rightarrow>
          (case py_setitem v k (PDict []) of
             Inl e \<Rightarrow> Inl e
           | Inr _ \<Rightarrow>
               (case setitem_walk (PDict []) (k' # ks) val of
                  Inl e \<Rightarrow> Inl e
                | Inr w' \<Rightarrow> py_setitem v k w')))"

definition DotDict_setitem :: "pyval \<Rightarrow> string \<Rightarrow> pyval \<Rightarrow> pyval result" where
  "DotDict_setitem data path val = setitem_walk data (split_on CHR ''.'' path) val"

text \<open>\<^verbatim>\<open>DotDict.update\<close> is the \<^verbatim>\<open>update\<close> of the top-level dict.\<close>

fun DotDict_update :: "pyval \<Rightarrow> dict \<Rightarrow> pyval result" where
  "DotDict_update (PDict d) e = Inr (PDict (dict_update d e))"
| "DotDict_update _ e = Inl AttributeError"

text \<open>
  What the walk of \<^verbatim>\<open>__setitem__\<close> meets: \<open>blocked v ks\<close> says that a part of the path
  before the last one exists and holds a value that is not a dict.
\<close>

fun is_dict :: "pyval \<Rightarrow> bool" where
  "is_dict (PDict d) = True"
| "is_dict _ = False"

fun blocked :: "pyval \<Rightarrow> string list \<Rightarrow> bool" where
  "blocked v [] = False"
| "blocked v [k] = False"
| "blocked (PDict d) (k # k' # ks) =
     (case map_of d k of None \<Rightarrow> False | Some w \<Rightarrow> \<not> is_dict w \<or> blocked w (k' # ks))"
| "blocked v (k # k' # ks) = True"

section \<open>Sequencing of computations that may raise\<close>

fun bindR :: "'a result \<Rightarrow> ('a \<Rightarrow> 'b result) \<Rightarrow> 'b result" where
  "bindR (Inl e) f = Inl e"
| "bindR (Inr x) f = f x"

text \<open>A \<^verbatim>\<open>for\<close> loop over a list that threads a state and stops at the first exception.\<close>

fun foldE :: "('s \<Rightarrow> 'a \<Rightarrow> 's result) \<Rightarrow> 'a list \<Rightarrow> 's \<Rightarrow> 's result" where
  "foldE f [] s = Inr s"
| "foldE f (x # xs) s = bindR (f s x) (foldE f xs)"

section \<open>The hook functions\<close>

type_synonym pre_hook = "pyval \<Rightarrow> pyval result"
type_synonym hook = "pyval \<Rightarrow> dict \<Rightarrow> pyval result"

text \<open>
  The builtin \<^verbatim>\<open>round(x)\<close> with one argument: an \<^verbatim>\<open>int\<close>, a float being rounded to the
  nearest integer, a tie going to the even one.
\<close>

definition round_half_even :: "real \<Rightarrow> int" where
  "round_half_even r =
     (let f = \<lfloor>r\<rfloor>; d = r - of_int f
      in if d < 1 / 2 then f else if 1 / 2 < d then f + 1 else if even f then f else f + 1)"

fun py_round :: pre_hook where
  "py_round (PInt i) = Inr (PInt i)"
| "py_round (PBool b) = Inr (PInt (of_bool b))"
| "py_round (PFloat r) = Inr (PInt (round_half_even r))"
| "py_round _ = Inl TypeError"

text \<open>
  The builtin \<^verbatim>\<open>int(x)\<close>: a float is truncated towards zero; a string is stripped of
  white space and read as an optional sign and decimal digits, single underscores allowed
  between digits (strings are byte strings here: ASCII only).
\<close>

definition is_space :: "char \<Rightarrow> bool" where
  "is_space c = (of_char c \<in> {9, 10, 11, 12, 13, 28, 29, 30, 31, 32 :: nat})"

definition is_digit :: "char \<Rightarrow> bool" where
  "is_digit c = (48 \<le> (of_char c :: nat) \<and> (of_char c :: nat) \<le> 57)"

definition digit_val :: "char \<Rightarrow> int" where
  "digit_val c = int (of_char c) - 48"

fun digits_val :: "int \<Rightarrow> string \<Rightarrow> int option" where
  "digits_val acc [] = Some acc"
| "digits_val acc [c] = (if is_digit c then Some (10 * acc + digit_val c) else None)"
| "digits_val acc (c # c' # cs) =
     (if is_digit c then digits_val (10 * acc + digit_val c) (c' # cs)
      else if c = CHR ''_'' \<and> is_digit c' then digits_val acc (c' # cs)
      else None)"

definition unsigned_val :: "string \<Rightarrow> int option" where
  "unsigned_val s = (case s of [] \<Rightarrow> None | c # cs \<Rightarrow> if is_digit c then digits_val 0 s else None)"

definition int_of_string :: "string \<Rightarrow> int option" where
  "int_of_string s =
     (case rev (dropWhile is_space (rev (dropWhile is_space s))) of
        [] \<Rightarrow> None
      | c # cs \<Rightarrow>
          if c = CHR ''-'' then map_option uminus (unsigned_val cs)
          else if c = CHR ''+'' then unsigned_val cs
          else unsigned_val (c # cs))"

fun py_int :: pre_hook where
  "py_int (PInt i) = Inr (PInt i)"
| "py_int (PBool b) = Inr (PInt (of_bool b))"
| "py_int (PFloat r) = Inr (PInt (if 0 \<le> r then \<lfloor>r\<rfloor> else \<lceil>r\<rceil>))"
| "py_int (PStr s) = (case int_of_string s of None \<Rightarrow> Inl ValueError | Some i \<Rightarrow> Inr (PInt i))"
| "py_int _ = Inl TypeError"

text \<open>Unary minus.\<close>

fun py_neg :: "pyval \<Rightarrow> pyval result" where
  "py_neg (PInt i) = Inr (PInt (- i))"
| "py_neg (PBool b) = Inr (PInt (- of_bool b))"
| "py_neg (PFloat r) = Inr (PFloat (- r))"
| "py_neg _ = Inl TypeError"

text \<open>
  \<^verbatim>\<open>b ** x\<close> for a positive integer literal \<open>b\<close>: an \<^verbatim>\<open>int\<close> for a non-negative integer
  exponent, a float otherwise.
\<close>

definition int_pow :: "int \<Rightarrow> int \<Rightarrow> pyval" where
  "int_pow b n = (if 0 \<le> n then PInt (b ^ nat n) else PFloat (1 / of_int (b ^ nat (- n))))"

fun py_pow :: "int \<Rightarrow> pyval \<Rightarrow> pyval result" where
  "py_pow b (PInt n) = Inr (int_pow b n)"
| "py_pow b (PBool c) = Inr (int_pow b (of_bool c))"
| "py_pow b (PFloat r) = Inr (PFloat (of_int b powr r))"
| "py_pow b _ = Inl TypeError"

text \<open>\<^verbatim>\<open>def two_to_the(x, _): return 2**x\<close>\<close>

definition two_to_the :: hook where
  "two_to_the x _ = py_pow 2 x"

text \<open>\<^verbatim>\<open>def ten_to_the_neg(x, _): return 10**-x\<close>\<close>

definition ten_to_the_neg :: hook where
  "ten_to_the_neg x _ = bindR (py_neg x) (py_pow 10)"

text \<open>\<^verbatim>\<open>lambda x, _: x if (x and x > thresh) else fallback\<close>\<close>

definition min_threshold :: "real \<Rightarrow> pyval \<Rightarrow> hook" where
  "min_threshold thresh fallback x _ =
     (if truthy x then bindR (py_gt x thresh) (\<lambda>b. Inr (if b then x else fallback))
      else Inr fallback)"

text \<open>\<^verbatim>\<open>lambda x, _: min_threshold(thresh, fallback)(ten_to_the_neg(x, _), _)\<close>\<close>

definition min_ten_neg :: "real \<Rightarrow> pyval \<Rightarrow> hook" where
  "min_ten_neg thresh fallback x f =
     bindR (ten_to_the_neg x f) (\<lambda>y. min_threshold thresh fallback y f)"

text \<open>
  \<^verbatim>\<open>hydrate_baseline\<close> builds a two-entry table keyed by \<^verbatim>\<open>False\<close> and \<^verbatim>\<open>True\<close> and indexes
  it with \<open>x\<close>. Both entries are built first, so the three reads of \<open>flat\<close> happen whatever
  \<open>x\<close> is. A dict or a list cannot be hashed; any other value that equals neither key is a
  \<^verbatim>\<open>KeyError\<close>.
\<close>

definition hydrate_baseline :: hook where
  "hydrate_baseline x flat =
     bindR (dict_get flat ''optimization_steps'') (\<lambda>num_steps.
     bindR (dict_get flat ''step_optimizer.type'') (\<lambda>opt_type.
     bindR (dict_get flat ''step_optimizer.learning_rate'') (\<lambda>lr.
     bindR (py_neg lr) (\<lambda>neg_lr.
     bindR (py_pow 10 neg_lr) (\<lambda>learning_rate.
       (case x of
          PDict _ \<Rightarrow> Inl TypeError
        | PList _ \<Rightarrow> Inl TypeError
        | PConfigProto _ \<Rightarrow> Inl TypeError
        | _ \<Rightarrow>
          if py_eq x (PBool False) then Inr (PDict [(''baseline_mode'', PNone)])
          else if py_eq x (PBool True) then
            Inr (PDict
              [(''baseline'', PDict [(''type'', PStr ''custom'')]),
               (''baseline_mode'', PStr ''states''),
               (''baseline_optimizer'', PDict
                  [(''type'', PStr ''multi_step''),
                   (''num_steps'', num_steps),
                   (''optimizer'', PDict
                      [(''type'', opt_type),
                       (''learning_rate'', learning_rate)])])])
          else Inl (KeyError x)))))))"

text \<open>
  The \<^verbatim>\<open>post\<close> hook of \<^verbatim>\<open>gae_lambda\<close>:
  \<^verbatim>\<open>lambda x, others: x if (x and x > .9 and others['baseline_mode']) else None\<close>
\<close>

definition gae_lambda_post :: hook where
  "gae_lambda_post x others =
     (if \<not> truthy x then Inr PNone
      else bindR (py_gt x (9 / 10)) (\<lambda>b.
        if \<not> b then Inr PNone
        else bindR (dict_get others ''baseline_mode'') (\<lambda>bm.
          Inr (if truthy bm then x else PNone))))"

section \<open>The catalogue of hyper-parameters\<close>

text \<open>
  An entry of a section is a dict with the keys \<^verbatim>\<open>type\<close>, \<^verbatim>\<open>vals\<close>, \<^verbatim>\<open>guess\<close> and the
  hooks, some of them absent, or a value that is not a dict and is then hard-coded.
\<close>

datatype htype = T_bounded | T_int | T_bool

record hyper =
  hyper_type :: htype
  vals :: "pyval list option"
  guess :: "pyval option"
  pre :: "pre_hook option"
  post :: "hook option"
  hydrate :: "hook option"

datatype entry = Spec hyper | Literal pyval

type_synonym schema = "(string \<times> entry) list"

definition batch_agent :: schema where
  "batch_agent =
    [(''batch_size'', Spec \<lparr>hyper_type = T_bounded, vals = Some [PInt 3, PInt 11],
        guess = Some (PInt 10), pre = Some py_round, post = None, hydrate = Some two_to_the\<rparr>),
     (''keep_last_timestep'', Spec \<lparr>hyper_type = T_bool, vals = None,
        guess = Some (PBool True), pre = None, post = None, hydrate = None\<rparr>)]"

definition model_section :: schema where
  "model_section =
    [(''optimizer.type'', Spec \<lparr>hyper_type = T_int, vals = Some [PStr ''nadam'', PStr ''adam''],
        guess = Some (PStr ''adam''), pre = None, post = None, hydrate = None\<rparr>),
     (''optimizer.learning_rate'', Spec \<lparr>hyper_type = T_bounded, vals = Some [PFloat 0, PFloat 8],
        guess = Some (PFloat (13 / 2)), pre = None, post = None, hydrate = Some ten_to_the_neg\<rparr>),
     (''optimization_steps'', Spec \<lparr>hyper_type = T_bounded, vals = Some [PInt 1, PInt 30],
        guess = Some (PInt 10), pre = Some py_round, post = None, hydrate = None\<rparr>),
     (''discount'', Spec \<lparr>hyper_type = T_bounded, vals = Some [PFloat (9 / 10), PFloat (99 / 100)],
        guess = Some (PFloat (99 / 100)), pre = None, post = None, hydrate = None\<rparr>)]"

definition distribution_model :: schema where
  "distribution_model =
    [(''entropy_regularization'', Spec \<lparr>hyper_type = T_bounded, vals = Some [PInt 0, PInt 5],
        guess = Some (PInt 2), pre = None, post = None,
        hydrate = Some (min_ten_neg (1 / 10000) (PFloat 0))\<rparr>)]"

definition pg_model :: schema where
  "pg_model =
    [(''baseline_mode'', Spec \<lparr>hyper_type = T_bool, vals = None,
        guess = Some (PBool True), pre = None, post = None, hydrate = Some hydrate_baseline\<rparr>),
     (''gae_lambda'', Spec \<lparr>hyper_type = T_bounded, vals = Some [PFloat (8 / 10), PFloat 1],
        guess = Some (PFloat (95 / 100)), pre = None, post = Some gae_lambda_post,
        hydrate = None\<rparr>)]"

definition pg_prob_ration_model :: schema where
  "pg_prob_ration_model =
    [(''likelihood_ratio_clipping'', Spec \<lparr>hyper_type = T_bounded, vals = Some [PFloat 0, PFloat 1],
        guess = Some (PFloat (2 / 10)), pre = None, post = None,
        hydrate = Some (min_threshold (5 / 100) PNone)\<rparr>)]"

text \<open>
  \<^verbatim>\<open>d[new] = d.pop(old)\<close>: the entry leaves its place and comes back last under the new key.
\<close>

definition rename_key :: "schema \<Rightarrow> string \<Rightarrow> string \<Rightarrow> schema" where
  "rename_key d old new =
     (case map_of d old of None \<Rightarrow> d | Some v \<Rightarrow> dict_set (AList.delete old d) new v)"

definition ppo_agent :: schema where
  "ppo_agent =
     rename_key
       (rename_key
          (dict_update (dict_update (dict_update (dict_update (dict_update (dict_update []
             []) batch_agent) model_section) distribution_model) pg_model) pg_prob_ration_model)
          ''optimizer.learning_rate'' ''step_optimizer.learning_rate'')
       ''optimizer.type'' ''step_optimizer.type''"

definition custom :: schema where
  "custom =
    [(''indicators'', Spec \<lparr>hyper_type = T_bool, vals = None,
        guess = Some (PBool True), pre = None, post = None, hydrate = None\<rparr>),
     (''net.depth_mid'', Spec \<lparr>hyper_type = T_bounded, vals = Some [PInt 1, PInt 3],
        guess = Some (PInt 3), pre = Some py_round, post = None, hydrate = None\<rparr>),
     (''net.depth_post'', Spec \<lparr>hyper_type = T_bounded, vals = Some [PInt 1, PInt 3],
        guess = Some (PInt 2), pre = Some py_round, post = None, hydrate = None\<rparr>),
     (''net.width'', Spec \<lparr>hyper_type = T_bounded, vals = Some [PInt 3, PInt 9],
        guess = Some (PInt 6), pre = Some py_round, post = None, hydrate = Some two_to_the\<rparr>),
     (''net.funnel'', Spec \<lparr>hyper_type = T_bool, vals = None,
        guess = Some (PBool True), pre = None, post = None, hydrate = None\<rparr>),
     (''net.activation'', Spec \<lparr>hyper_type = T_int, vals = Some [PStr ''tanh'', PStr ''relu''],
        guess = Some (PStr ''tanh''), pre = None, post = None, hydrate = None\<rparr>),
     (''net.dropout'', Spec \<lparr>hyper_type = T_bounded, vals = Some [PFloat 0, PFloat (5 / 10)],
        guess = Some (PFloat (1 / 1000)), pre = None, post = None,
        hydrate = Some (min_threshold (1 / 10) PNone)\<rparr>),
     (''net.l2'', Spec \<lparr>hyper_type = T_bounded, vals = Some [PInt 0, PInt 7],
        guess = Some (PInt 7), pre = None, post = None,
        hydrate = Some (min_ten_neg (1 / 1000000) (PFloat 0))\<rparr>),
     (''net.l1'', Spec \<lparr>hyper_type = T_bounded, vals = Some [PInt 0, PInt 7],
        guess = Some (PInt 3), pre = None, post = None,
        hydrate = Some (min_ten_neg (1 / 1000000) (PFloat 0))\<rparr>),
     (''pct_change'', Spec \<lparr>hyper_type = T_bool, vals = None,
        guess = Some (PBool False), pre = None, post = None, hydrate = None\<rparr>),
     (''unimodal'', Spec \<lparr>hyper_type = T_bool, vals = None,
        guess = Some (PBool False), pre = None, post = None, hydrate = None\<rparr>),
     (''scale'', Spec \<lparr>hyper_type = T_bool, vals = None,
        guess = Some (PBool True), pre = None, post = None, hydrate = None\<rparr>),
     (''punish_repeats'', Spec \<lparr>hyper_type = T_bool, vals = None,
        guess = Some (PBool False), pre = None, post = None, hydrate = None\<rparr>),
     (''arbitrage'', Spec \<lparr>hyper_type = T_bool, vals = None,
        guess = Some (PBool True), pre = None, post = None, hydrate = None\<rparr>)]"

definition lstm :: schema where
  "lstm =
    [(''net.depth_pre'', Spec \<lparr>hyper_type = T_bounded, vals = Some [PInt 0, PInt 3],
        guess = Some (PInt 2), pre = Some py_int, post = None, hydrate = None\<rparr>)]"

definition conv2d :: schema where
  "conv2d =
    [(''net.window'', Spec \<lparr>hyper_type = T_bounded, vals = Some [PInt 1, PInt 3],
        guess = Some (PInt 2), pre = Some py_round, post = None, hydrate = None\<rparr>),
     (''net.stride'', Spec \<lparr>hyper_type = T_bounded, vals = Some [PInt 1, PInt 3],
        guess = Some (PInt 3), pre = Some py_round, post = None, hydrate = None\<rparr>),
     (''step_window'', Spec \<lparr>hyper_type = T_bounded, vals = Some [PInt 100, PInt 400],
        guess = Some (PInt 200), pre = Some py_round, post = None, hydrate = None\<rparr>)]"

text \<open>
  The loop that fills in the implicit \<^verbatim>\<open>vals\<close>: every \<^verbatim>\<open>bool\<close> entry gets \<^verbatim>\<open>[0, 1]\<close>,
  hard-coded values are skipped.
\<close>

fun fill_vals :: "entry \<Rightarrow> entry" where
  "fill_vals (Spec h) =
     (if hyper_type h = T_bool then Spec (h\<lparr>vals := Some [PInt 0, PInt 1]\<rparr>) else Spec h)"
| "fill_vals (Literal l) = Literal l"

text \<open>The module-level dict \<^verbatim>\<open>hypers\<close>, as it stands once the module is loaded.\<close>

definition hypers :: "(string \<times> schema) list" where
  "hypers = map (\<lambda>(name, sec). (name, map (\<lambda>(k, v). (k, fill_vals v)) sec))
     [(''agent'', []),
      (''batch_agent'', batch_agent),
      (''model'', model_section),
      (''distribution_model'', distribution_model),
      (''pg_model'', pg_model),
      (''pg_prob_ration_model'', pg_prob_ration_model),
      (''ppo_agent'', ppo_agent),
      (''custom'', custom),
      (''lstm'', lstm),
      (''conv2d'', conv2d)]"

section \<open>HSearchEnv\<close>

record HSearchEnv =
  self_hypers :: schema
  self_agent :: string
  self_hardcoded :: dict
  self_gpu_split :: real
  self_net_type :: string

text \<open>The hard-coded entries of a merged schema: those whose value is not a dict.\<close>

fun literals :: "schema \<Rightarrow> dict" where
  "literals [] = []"
| "literals ((k, Literal l) # es) = (k, l) # literals es"
| "literals ((k, Spec h) # es) = literals es"

text \<open>\<^verbatim>\<open>HSearchEnv.__init__\<close> (the two database connections are left out).\<close>

definition init :: "string \<Rightarrow> real \<Rightarrow> string \<Rightarrow> HSearchEnv result" where
  "init agent gpu_split net_type =
     bindR (dict_get hypers agent) (\<lambda>agent_sec.
     bindR (dict_get hypers ''custom'') (\<lambda>custom_sec.
     bindR (dict_get hypers net_type) (\<lambda>net_sec.
       (let hypers1 = dict_update agent_sec custom_sec;
            hypers2 = dict_set hypers1 ''net.type'' (Literal (PStr net_type));
            hypers3 = dict_update hypers2 net_sec
        in Inr \<lparr>self_hypers = hypers3, self_agent = agent, self_hardcoded = literals hypers3,
                self_gpu_split = gpu_split, self_net_type = net_type\<rparr>))))"

text \<open>
  The pre-processing loop of \<^verbatim>\<open>get_hypers\<close>. The values are primitives already, so
  \<^verbatim>\<open>v.item()\<close> raises and is passed over. \<^verbatim>\<open>'pre' in hyper\<close> on a hard-coded value is a
  membership test on that value; when it holds, \<^verbatim>\<open>hyper['pre'](v)\<close> cannot be a call.
\<close>

fun apply_pre :: "entry \<Rightarrow> pyval \<Rightarrow> pyval result" where
  "apply_pre (Spec h) v = (case pre h of None \<Rightarrow> Inr v | Some f \<Rightarrow> f v)"
| "apply_pre (Literal l) v = bindR (py_contains l ''pre'') (\<lambda>c. if c then Inl TypeError else Inr v)"

definition pre_step :: "schema \<Rightarrow> dict \<Rightarrow> string \<times> pyval \<Rightarrow> dict result" where
  "pre_step hs flat kv =
     (case kv of (k, v) \<Rightarrow>
        bindR (dict_get hs k) (\<lambda>hyper.
        bindR (apply_pre hyper v) (\<lambda>v'.
          Inr (dict_set flat k v'))))"

text \<open>
  The post-processing loop: \<^verbatim>\<open>flat[k] = hyper['post'](v, flat)\<close> for the entries that are
  dicts with a \<^verbatim>\<open>post\<close> hook. The hook sees the record as the earlier keys left it.
\<close>

definition post_step :: "schema \<Rightarrow> dict \<Rightarrow> string \<Rightarrow> dict result" where
  "post_step hs flat k =
     (case map_of flat k of
        None \<Rightarrow> Inr flat
      | Some v \<Rightarrow>
          bindR (dict_get hs k) (\<lambda>hyper.
            (case hyper of
               Literal l \<Rightarrow> Inr flat
             | Spec h \<Rightarrow>
                 (case post h of
                    None \<Rightarrow> Inr flat
                  | Some f \<Rightarrow> bindR (f v flat) (\<lambda>v'. Inr (dict_set flat k v'))))))"

text \<open>
  The hydration loop. Inside the \<^verbatim>\<open>try\<close>: the look-up of the hook (a \<^verbatim>\<open>KeyError\<close> when the
  entry has none, a \<^verbatim>\<open>TypeError\<close> when the entry is hard-coded), its call, and the store into
  the tree. The bare \<^verbatim>\<open>except\<close> stores \<open>v\<close>, which is the hook's result when the hook
  returned and the raw value otherwise; an exception of that store is not caught.
\<close>

fun hydrate_of :: "entry \<Rightarrow> hook result" where
  "hydrate_of (Spec h) =
     (case hydrate h of None \<Rightarrow> Inl (KeyError (PStr ''hydrate'')) | Some f \<Rightarrow> Inr f)"
| "hydrate_of (Literal l) = Inl TypeError"

definition run_hydrate :: "schema \<Rightarrow> dict \<Rightarrow> string \<Rightarrow> pyval \<Rightarrow> pyval result" where
  "run_hydrate hs flat k v =
     bindR (dict_get hs k) (\<lambda>hyper. bindR (hydrate_of hyper) (\<lambda>f. f v flat))"

definition store_hydrated :: "pyval \<Rightarrow> string \<Rightarrow> pyval \<Rightarrow> pyval result" where
  "store_hydrated obj k v' =
     (case v' of PDict e \<Rightarrow> DotDict_update obj e | _ \<Rightarrow> DotDict_setitem obj k v')"

definition hydrate_key :: "schema \<Rightarrow> dict \<Rightarrow> pyval \<Rightarrow> string \<Rightarrow> pyval \<Rightarrow> pyval result" where
  "hydrate_key hs flat obj k v =
     (case run_hydrate hs flat k v of
        Inl e \<Rightarrow> DotDict_setitem obj k v
      | Inr v' \<Rightarrow>
          (case store_hydrated obj k v' of
             Inl e \<Rightarrow> DotDict_setitem obj k v'
           | Inr obj' \<Rightarrow> Inr obj'))"

definition hydrate_step ::
  "HSearchEnv \<Rightarrow> dict \<Rightarrow> pyval \<times> pyval \<Rightarrow> string \<times> pyval \<Rightarrow> (pyval \<times> pyval) result" where
  "hydrate_step self flat trees kv =
     (case (trees, kv) of ((main, custom_tree), (k, v)) \<Rightarrow>
        bindR (dict_get hypers (self_agent self)) (\<lambda>agent_sec.
          if k \<in> fst ` set agent_sec
          then bindR (hydrate_key (self_hypers self) flat main k v) (\<lambda>m. Inr (m, custom_tree))
          else bindR (hydrate_key (self_hypers self) flat custom_tree k v) (\<lambda>c. Inr (main, c))))"

text \<open>
  \<^verbatim>\<open>custom_net\<close> wraps the layer list of \<^verbatim>\<open>build_net_spec\<close> into a network class.
  \<^verbatim>\<open>build_net_spec\<close> reads the tree through the packages \<^verbatim>\<open>box\<close> and \<^verbatim>\<open>data\<close>, which are
  not part of the module; it is a parameter here, a function from the tree and the
  \<^verbatim>\<open>baseline\<close> flag to a layer list or an exception.
\<close>

type_synonym net_builder = "pyval \<Rightarrow> bool \<Rightarrow> pyval result"

definition custom_net :: "net_builder \<Rightarrow> pyval \<Rightarrow> bool \<Rightarrow> pyval result" where
  "custom_net build_net_spec tree baseline =
     bindR (build_net_spec tree baseline) (\<lambda>layers_spec. Inr (PNet layers_spec))"

text \<open>The baseline network: the right-hand side is evaluated before \<^verbatim>\<open>main['baseline']\<close>.\<close>

definition add_baseline :: "net_builder \<Rightarrow> HSearchEnv \<Rightarrow> dict \<Rightarrow> pyval \<Rightarrow> pyval \<Rightarrow> pyval result" where
  "add_baseline build_net_spec self flat main custom_tree =
     bindR (dict_get (self_hypers self) ''baseline_mode'') (\<lambda>hyper.
     bindR (case hyper of
              Literal (PBool b) \<Rightarrow>
                bindR (hydrate_baseline (PBool b) flat) (\<lambda>d.
                  (case d of PDict e \<Rightarrow> DotDict_update main e | _ \<Rightarrow> Inl TypeError))
            | _ \<Rightarrow> Inr main) (\<lambda>main1.
     bindR (custom_net build_net_spec custom_tree True) (\<lambda>net.
     bindR (py_getitem main1 ''baseline'') (\<lambda>baseline.
     bindR (py_setitem baseline ''network_spec'' net) (\<lambda>baseline'.
       py_setitem main1 ''baseline'' baseline')))))"

definition session_config :: "real \<Rightarrow> pyval" where
  "session_config gpu_split =
     (if gpu_split \<noteq> 1
      then PConfigProto (if gpu_split > 1 then (9 / 10) / gpu_split else gpu_split)
      else PNone)"

text \<open>\<^verbatim>\<open>HSearchEnv.get_hypers\<close>: the record, the hydrated \<^verbatim>\<open>main\<close> tree and the network.\<close>

definition get_hypers ::
  "net_builder \<Rightarrow> HSearchEnv \<Rightarrow> dict \<Rightarrow> (dict \<times> pyval \<times> pyval) result" where
  "get_hypers build_net_spec self actions =
     bindR (foldE (pre_step (self_hypers self)) actions []) (\<lambda>flat0.
       (let flat1 = dict_update flat0 (self_hardcoded self) in
     bindR (foldE (post_step (self_hypers self)) (map fst flat1) flat1) (\<lambda>flat.
     bindR (foldE (hydrate_step self flat) flat (PDict [], PDict [])) (\<lambda>(main, custom_tree).
     bindR (custom_net build_net_spec custom_tree False) (\<lambda>network.
     bindR (dict_get flat ''baseline_mode'') (\<lambda>bm.
     bindR (if truthy bm then add_baseline build_net_spec self flat main custom_tree
            else Inr main) (\<lambda>main1.
     bindR (py_setitem main1 ''session_config'' (session_config (self_gpu_split self))) (\<lambda>main2.
       Inr (flat, main2, network)))))))))"

text \<open>
  \<^verbatim>\<open>HSearchEnv.get_winner\<close> without an id (with one, the record comes from the run
  store). The object keeps the new \<^verbatim>\<open>hardcoded\<close> also when \<^verbatim>\<open>get_hypers\<close> raises, so the
  object after the call is returned beside the outcome.
\<close>

fun guess_of :: "entry \<Rightarrow> pyval result" where
  "guess_of (Spec h) = (case guess h of None \<Rightarrow> Inl (KeyError (PStr ''guess'')) | Some g \<Rightarrow> Inr g)"
| "guess_of (Literal l) = Inl TypeError"

definition winner_step :: "dict \<Rightarrow> dict \<Rightarrow> string \<times> entry \<Rightarrow> dict result" where
  "winner_step hardcoded winner kv =
     (case kv of (k, v) \<Rightarrow>
        if k \<notin> fst ` set hardcoded
        then bindR (guess_of v) (\<lambda>g. Inr (dict_set winner k g))
        else Inr winner)"

definition get_winner ::
  "net_builder \<Rightarrow> HSearchEnv \<Rightarrow> HSearchEnv \<times> (dict \<times> pyval \<times> pyval) result" where
  "get_winner build_net_spec self =
     (case foldE (winner_step (self_hardcoded self)) (self_hypers self) [] of
        Inl e \<Rightarrow> (self, Inl e)
      | Inr w \<Rightarrow>
          (let winner = dict_update w (self_hardcoded self);
               self' = self\<lparr>self_hardcoded := winner\<rparr>
           in (self', get_hypers build_net_spec self' [])))"

section \<open>The record of guesses\<close>

text \<open>
  The record \<^verbatim>\<open>{k: spec.guess for k in schema}\<close> of the specification, over the keys
  that are not hard-coded, in schema order.
\<close>

fun guess_record :: "schema \<Rightarrow> dict \<Rightarrow> dict" where
  "guess_record [] hardcoded = []"
| "guess_record ((k, Spec h) # es) hardcoded =
     (case guess h of
        Some g \<Rightarrow> if k \<notin> fst ` set hardcoded then (k, g) # guess_record es hardcoded
                  else guess_record es hardcoded
      | None \<Rightarrow> guess_record es hardcoded)"
| "guess_record ((k, Literal l) # es) hardcoded = guess_record es hardcoded"

text \<open>Every \<^verbatim>\<open>post\<close> hook of the schema returns the value it is given on the record \<open>w\<close>.\<close>

definition post_inert :: "schema \<Rightarrow> dict \<Rightarrow> bool" where
  "post_inert hs w =
     list_all (\<lambda>(k, e).
       (case e of
          Literal l \<Rightarrow> True
        | Spec h \<Rightarrow>
            (case post h of
               None \<Rightarrow> True
             | Some f \<Rightarrow>
                 (case map_of w k of
                    None \<Rightarrow> True
                  | Some v \<Rightarrow> (case f v w of Inl e \<Rightarrow> False | Inr v' \<Rightarrow> v' = v))))) hs"

text \<open>
  Two values used to run the pipeline on concrete inputs: a layer builder that returns an
  empty layer list, and the schema edit that sets the guess of \<^verbatim>\<open>baseline_mode\<close> to
  \<^verbatim>\<open>False\<close>.
\<close>

definition no_layers :: net_builder where
  "no_layers tree baseline = Inr (PList [])"

definition baseline_guess_off :: "schema \<Rightarrow> schema" where
  "baseline_guess_off hs = dict_set hs ''baseline_mode''
     (Spec \<lparr>hyper_type = T_bool, vals = Some [PInt 0, PInt 1], guess = Some (PBool False),
             pre = None, post = None, hydrate = Some hydrate_baseline\<rparr>)"

section \<open>Paths of the hydrated trees\<close>

text \<open>
  The value found by following a path through nested dicts, \<open>None\<close> when a part is
  absent (unlike \<^verbatim>\<open>DotDict.__getitem__\<close>, which answers \<^verbatim>\<open>None\<close> both for an absent path
  and for a path bound to \<^verbatim>\<open>None\<close>).
\<close>

fun lookup_path :: "pyval \<Rightarrow> string list \<Rightarrow> pyval option" where
  "lookup_path v [] = Some v"
| "lookup_path (PDict d) (k # ks) =
     (case map_of d k of None \<Rightarrow> None | Some w \<Rightarrow> lookup_path w ks)"
| "lookup_path _ (k # ks) = None"

text \<open>Two paths are independent when neither leads through the other.\<close>

definition independent :: "string list \<Rightarrow> string list \<Rightarrow> bool" where
  "independent p q = (\<not> prefix p q \<and> \<not> prefix q p)"

text \<open>
  No other key of the record \<open>flat\<close> gets in the way of key \<open>k\<close>: its path is independent
  of the path of \<open>k\<close>, and when its \<^verbatim>\<open>hydrate\<close> hook returns a dict, that dict does not bind
  the first part of the path of \<open>k\<close>.
\<close>

definition no_clash :: "schema \<Rightarrow> dict \<Rightarrow> string \<Rightarrow> bool" where
  "no_clash hs flat k =
     list_all (\<lambda>(k', v').
       k' = k \<or>
       (independent (split_on CHR ''.'' k') (split_on CHR ''.'' k) \<and>
        (case run_hydrate hs flat k' v' of
           Inr (PDict e') \<Rightarrow> hd (split_on CHR ''.'' k) \<notin> fst ` set e'
         | _ \<Rightarrow> True))) flat"

text \<open>
  A schema entry never binds \<open>q\<close>: whenever its \<^verbatim>\<open>hydrate\<close> hook returns a dict, \<open>q\<close> is
  not a key of that dict.
\<close>

definition never_binds :: "string \<Rightarrow> entry \<Rightarrow> bool" where
  "never_binds q e =
     (\<forall>h f x fl d. e = Spec h \<longrightarrow> hydrate h = Some f \<longrightarrow> f x fl = Inr (PDict d) \<longrightarrow>
        q \<notin> fst ` set d)"

(*DEFS*)

section \<open>Properties of the nested-path store\<close>

lemma map_of_dict_set: "map_of (dict_set d k v) = (map_of d)(k \<mapsto> v)"
  by (simp add: dict_set_def update_conv')

lemma keys_dict_set: "fst ` set (dict_set d k v) = insert k (fst ` set d)"
  unfolding dict_set_def by (induction d) auto

lemma in_keys_iff: "k \<in> fst ` set d \<longleftrightarrow> map_of d k \<noteq> None"
  by (simp add: map_of_eq_None_iff)

lemma setitem_non_dict:
  "\<not> is_dict w \<Longrightarrow> setitem_walk w (k # ks) val = Inl TypeError"
  by (cases ks; cases w) (simp_all split: sum.splits bool.splits)

lemma setitem_blocked:
  "blocked v ks \<Longrightarrow> setitem_walk v ks val = Inl TypeError"
proof (induction v ks rule: blocked.induct)
  case (3 d k k' ks)
  then obtain w where w: "map_of d k = Some w" and b: "\<not> is_dict w \<or> blocked w (k' # ks)"
    by (auto split: option.splits)
  have "setitem_walk w (k' # ks) val = Inl TypeError"
    using b 3 w setitem_non_dict by blast
  with w show ?case
    by (simp add: in_keys_iff dict_get_def)
qed (simp_all split: bool.splits)

lemma not_blocked_empty: "\<not> blocked (PDict []) ks"
proof (cases ks)
  case (Cons k ks')
  then show ?thesis by (cases ks') simp_all
qed simp

lemma setitem_free:
  "\<not> blocked (PDict d) ks \<Longrightarrow> ks \<noteq> [] \<Longrightarrow>
   \<exists>d'. setitem_walk (PDict d) ks val = Inr (PDict d') \<and> getitem_walk (PDict d') ks = Inr val"
proof (induction ks arbitrary: d)
  case Nil
  then show ?case by simp
next
  case (Cons k ks)
  show ?case
  proof (cases ks)
    case Nil
    then show ?thesis by (simp add: keys_dict_set dict_get_def map_of_dict_set)
  next
    case (Cons k' ks')
    show ?thesis
    proof (cases "map_of d k")
      case None
      have nb: "\<not> blocked (PDict []) ks" by (rule not_blocked_empty)
      from Cons.IH[OF nb] Cons obtain e where
        e: "setitem_walk (PDict []) ks val = Inr (PDict e)" "getitem_walk (PDict e) ks = Inr val"
        by auto
      with None Cons show ?thesis
        by (simp add: in_keys_iff keys_dict_set dict_get_def map_of_dict_set)
    next
      case (Some w)
      with Cons.prems Cons obtain dw where w: "w = PDict dw" and nb: "\<not> blocked (PDict dw) ks"
        by (cases w) auto
      from Cons.IH[OF nb] Cons obtain e where
        e: "setitem_walk (PDict dw) ks val = Inr (PDict e)" "getitem_walk (PDict e) ks = Inr val"
        by auto
      with Some Cons w show ?thesis
        by (simp add: in_keys_iff keys_dict_set dict_get_def map_of_dict_set)
    qed
  qed
qed

lemma split_on_nonempty: "split_on c s \<noteq> []"
  by (induction s) (auto split: list.splits)

text \<open>
  Claim C6, as stated, fails: \<^verbatim>\<open>d = DotDict({'a': 1}); d['a.b'] = 2\<close> descends into the
  integer bound to \<^verbatim>\<open>a\<close> and raises a \<^verbatim>\<open>TypeError\<close>; the integer is not replaced by a
  mapping.
\<close>

theorem DotDict_setitem_non_mapping_fails:
  "DotDict_setitem (PDict [(''a'', PInt 1)]) ''a.b'' (PInt 2) = Inl TypeError"
  by (simp add: DotDict_setitem_def dict_get_def)

text \<open>
  Claim C6, amended: for every dotted path and value, \<^verbatim>\<open>__setitem__\<close> creates the
  intermediate mappings that are absent. When every existing intermediate entry on the path
  is a mapping, the assignment succeeds and \<^verbatim>\<open>__getitem__\<close> of the same path then returns the
  value. When an existing intermediate entry on the path is not a mapping, it is not
  overwritten: the assignment raises a \<^verbatim>\<open>TypeError\<close>.
\<close>

theorem DotDict_setitem_creates_or_fails:
  "(\<not> blocked (PDict d) (split_on CHR ''.'' path) \<longrightarrow>
      (\<exists>d'. DotDict_setitem (PDict d) path val = Inr (PDict d') \<and>
            DotDict_getitem (PDict d') path = Inr val)) \<and>
   (blocked (PDict d) (split_on CHR ''.'' path) \<longrightarrow>
      DotDict_setitem (PDict d) path val = Inl TypeError)"
  unfolding DotDict_setitem_def DotDict_getitem_def
  using setitem_free [OF _ split_on_nonempty] setitem_blocked by blast

theorem DotDict_setitem_creates_or_fails_witness:
  "\<not> blocked (PDict [(''a'', PInt 1)]) (split_on CHR ''.'' ''c.b'') \<and>
   (\<exists>d'. DotDict_setitem (PDict [(''a'', PInt 1)]) ''c.b'' (PInt 2) = Inr (PDict d') \<and>
         DotDict_getitem (PDict d') ''c.b'' = Inr (PInt 2)) \<and>
   blocked (PDict [(''a'', PInt 1)]) (split_on CHR ''.'' ''a.b'') \<and>
   DotDict_setitem (PDict [(''a'', PInt 1)]) ''a.b'' (PInt 5) = Inl TypeError"
  using DotDict_setitem_creates_or_fails [of "[(''a'', PInt 1)]" "''c.b''" "PInt 2"]
        DotDict_setitem_creates_or_fails [of "[(''a'', PInt 1)]" "''a.b''" "PInt 5"]
  by simp

section \<open>Facts about sequencing and dictionaries\<close>

lemma bindR_eq_Inr: "bindR m f = Inr y \<longleftrightarrow> (\<exists>x. m = Inr x \<and> f x = Inr y)"
  by (cases m) simp_all

lemma bindR_eq_Inl: "bindR m f = Inl e \<longleftrightarrow> m = Inl e \<or> (\<exists>x. m = Inr x \<and> f x = Inl e)"
  by (cases m) simp_all

lemma foldE_append: "foldE f (xs @ ys) s = bindR (foldE f xs s) (foldE f ys)"
proof (induction xs arbitrary: s)
  case (Cons x xs)
  then show ?case by (cases "f s x") simp_all
qed simp

lemma foldE_fails:
  "x \<in> set xs \<Longrightarrow> (\<And>s. \<exists>e. f s x = Inl e) \<Longrightarrow> \<exists>e. foldE f xs s = Inl e"
proof (induction xs arbitrary: s)
  case (Cons y ys)
  show ?case
  proof (cases "f s y")
    case (Inl e)
    then show ?thesis by simp
  next
    case (Inr s')
    show ?thesis
    proof (cases "x = y")
      case True
      with Inr Cons.prems(2) [of s] show ?thesis by simp
    next
      case False
      with Cons.prems have "x \<in> set ys" by simp
      from Cons.IH [OF this Cons.prems(2)] Inr show ?thesis by simp
    qed
  qed
qed simp

lemma distinct_dict_set: "distinct (map fst (dict_set d k v)) = distinct (map fst d)"
  by (simp add: dict_set_def update_keys)

lemma dict_set_fresh: "k \<notin> fst ` set d \<Longrightarrow> dict_set d k v = d @ [(k, v)]"
  unfolding dict_set_def by (induction d) auto

lemma dict_set_same: "map_of d k = Some v \<Longrightarrow> dict_set d k v = d"
  unfolding dict_set_def by (induction d) (auto split: if_splits)

lemma keys_dict_update: "fst ` set (dict_update d e) = fst ` set d \<union> fst ` set e"
  unfolding dict_update_def
  by (induction e arbitrary: d) (simp_all add: keys_dict_set split_beta)

lemma distinct_dict_update: "distinct (map fst (dict_update d e)) = distinct (map fst d)"
  unfolding dict_update_def
  by (induction e arbitrary: d) (simp_all add: distinct_dict_set split_beta)

lemma map_of_dict_update_out:
  "k \<notin> fst ` set e \<Longrightarrow> map_of (dict_update d e) k = map_of d k"
  unfolding dict_update_def
  by (induction e arbitrary: d) (simp_all add: map_of_dict_set split_beta)

lemma map_of_dict_update_in:
  "distinct (map fst e) \<Longrightarrow> map_of e k = Some v \<Longrightarrow> map_of (dict_update d e) k = Some v"
proof (induction e arbitrary: d)
  case (Cons a e)
  obtain k' v' where a: "a = (k', v')" by (cases a)
  have step: "dict_update d (a # e) = dict_update (dict_set d k' v') e"
    by (simp add: dict_update_def a)
  show ?case
  proof (cases "k' = k")
    case True
    with Cons.prems a have "v' = v" and "k \<notin> fst ` set e" by auto
    with True show ?thesis
      by (simp add: step map_of_dict_update_out map_of_dict_set)
  next
    case False
    with Cons.prems a have "distinct (map fst e)" and "map_of e k = Some v" by auto
    then have "map_of (dict_update (dict_set d k' v') e) k = Some v" by (rule Cons.IH)
    then show ?thesis by (simp only: step)
  qed
qed simp

section \<open>Facts about the catalogue and the environment\<close>

lemmas sec_defs = batch_agent_def model_section_def distribution_model_def pg_model_def
  pg_prob_ration_model_def ppo_agent_def custom_def lstm_def conv2d_def

lemmas eval_defs = init_def dict_get_def hypers_def sec_defs rename_key_def dict_update_def
  dict_set_def get_hypers_def pre_step_def post_step_def hydrate_step_def hydrate_key_def
  run_hydrate_def store_hydrated_def custom_net_def add_baseline_def session_config_def
  two_to_the_def ten_to_the_neg_def min_threshold_def min_ten_neg_def hydrate_baseline_def
  gae_lambda_post_def py_gt_def py_eq_def int_pow_def round_half_even_def
  DotDict_setitem_def DotDict_getitem_def get_winner_def winner_step_def

lemma map_of_literals:
  "map_of hs k = Some (Literal l) \<Longrightarrow> map_of (literals hs) k = Some l"
  by (induction hs rule: literals.induct) (auto split: if_splits)

lemma keys_literals: "fst ` set (literals hs) \<subseteq> fst ` set hs"
  by (induction hs rule: literals.induct) auto

lemma distinct_literals: "distinct (map fst hs) \<Longrightarrow> distinct (map fst (literals hs))"
  using keys_literals by (induction hs rule: literals.induct) (auto simp: subset_iff)

lemma hypers_distinct: "map_of hypers a = Some sec \<Longrightarrow> distinct (map fst sec)"
proof -
  assume "map_of hypers a = Some sec"
  then have "(a, sec) \<in> set hypers" by (rule map_of_SomeD)
  then have "sec \<in> snd ` set hypers" by force
  then show ?thesis
    unfolding hypers_def
    by (auto simp: sec_defs rename_key_def dict_update_def dict_set_def)
qed

lemma init_distinct:
  "init agent g nt = Inr self \<Longrightarrow> distinct (map fst (self_hypers self))"
  by (auto simp: init_def dict_get_def distinct_dict_update distinct_dict_set Let_def
      bindR_eq_Inr dest: hypers_distinct split: option.splits)

lemma init_hardcoded:
  "init agent g nt = Inr self \<Longrightarrow> self_hardcoded self = literals (self_hypers self)"
  by (auto simp: init_def dict_get_def Let_def bindR_eq_Inr split: option.splits)

section \<open>The pre-processing loop and unknown keys\<close>

lemma pre_step_unknown:
  "map_of hs k = None \<Longrightarrow> pre_step hs flat (k, v) = Inl (KeyError (PStr k))"
  by (simp add: pre_step_def dict_get_def)

text \<open>
  Claim C2, as stated, fails: the exception need not name the key that has no schema entry.
  In \<^verbatim>\<open>get_hypers({'net.width': 'wide', 'bogus': 1})\<close> the \<^verbatim>\<open>pre\<close> hook \<^verbatim>\<open>round\<close> of
  \<^verbatim>\<open>net.width\<close> raises a \<^verbatim>\<open>TypeError\<close> before the loop reaches \<^verbatim>\<open>bogus\<close>.
\<close>

(*SLOW*)
theorem get_hypers_unknown_key_other_error:
  "\<exists>self. init ''ppo_agent'' 1 ''conv2d'' = Inr self \<and>
     get_hypers (\<lambda>tree baseline. Inr (PList [])) self
       [(''net.width'', PStr ''wide''), (''bogus'', PInt 1)] = Inl TypeError"
  by (simp add: eval_defs)
(*ENDSLOW*)

text \<open>
  Claim C2, amended: for every actions mapping containing a key that has no entry in the merged
  schema, \<^verbatim>\<open>get_hypers\<close> raises and returns no record: the key is never dropped or absorbed.
  The exception is the \<^verbatim>\<open>KeyError\<close> naming that key whenever the pre-processing loop gets
  as far as the key, that is, whenever it runs through the entries before it without an
  exception (they all have schema entries then, and their \<^verbatim>\<open>pre\<close> hooks return).
\<close>

theorem get_hypers_unknown_key:
  assumes "k \<in> fst ` set actions" and "map_of (self_hypers self) k = None"
  shows "(\<exists>e. get_hypers build_net_spec self actions = Inl e) \<and>
         (\<forall>xs v ys flat. actions = xs @ (k, v) # ys \<longrightarrow>
             foldE (pre_step (self_hypers self)) xs [] = Inr flat \<longrightarrow>
             get_hypers build_net_spec self actions = Inl (KeyError (PStr k)))"
proof
  from assms(1) obtain v where kv: "(k, v) \<in> set actions" by auto
  have "\<exists>e. foldE (pre_step (self_hypers self)) actions [] = Inl e"
    using kv pre_step_unknown [OF assms(2)] by (intro foldE_fails [where x = "(k, v)"]) auto
  then show "\<exists>e. get_hypers build_net_spec self actions = Inl e"
    by (auto simp: get_hypers_def)
next
  show "\<forall>xs v ys flat. actions = xs @ (k, v) # ys \<longrightarrow>
             foldE (pre_step (self_hypers self)) xs [] = Inr flat \<longrightarrow>
             get_hypers build_net_spec self actions = Inl (KeyError (PStr k))"
    by (auto simp: get_hypers_def foldE_append pre_step_unknown [OF assms(2)])
qed

(*SLOW*)
theorem get_hypers_unknown_key_witness:
  "\<exists>self. init ''ppo_agent'' 1 ''conv2d'' = Inr self \<and>
     ''bogus'' \<in> fst ` set [(''net.width'', PFloat 6), (''bogus'', PInt 1)] \<and>
     map_of (self_hypers self) ''bogus'' = None \<and>
     foldE (pre_step (self_hypers self)) [(''net.width'', PFloat 6)] []
       = Inr [(''net.width'', PInt 6)] \<and>
     get_hypers (\<lambda>tree baseline. Inr (PList [])) self
       [(''net.width'', PFloat 6), (''bogus'', PInt 1)] = Inl (KeyError (PStr ''bogus''))"
proof -
  obtain self where s: "init ''ppo_agent'' 1 ''conv2d'' = Inr self"
    and m: "map_of (self_hypers self) ''bogus'' = None"
    and p: "foldE (pre_step (self_hypers self)) [(''net.width'', PFloat 6)] []
              = Inr [(''net.width'', PInt 6)]"
    by (simp add: eval_defs)
  have i: "''bogus'' \<in> fst ` set [(''net.width'', PFloat 6), (''bogus'', PInt 1)]" by simp
  from get_hypers_unknown_key [OF i m, of "\<lambda>tree baseline. Inr (PList [])"] p
  have "get_hypers (\<lambda>tree baseline. Inr (PList [])) self
       [(''net.width'', PFloat 6), (''bogus'', PInt 1)] = Inl (KeyError (PStr ''bogus''))"
    by (metis append_Cons append_Nil)
  with s m p i show ?thesis by blast
qed
(*ENDSLOW*)

section \<open>Hard-coded values in the record\<close>

lemma post_step_literal:
  "post_step hs flat k' = Inr flat' \<Longrightarrow> map_of hs k = Some (Literal l) \<Longrightarrow>
   map_of flat' k = map_of flat k"
  by (cases "k' = k")
     (auto simp: post_step_def dict_get_def map_of_dict_set bindR_eq_Inr
           split: option.splits entry.splits)

lemma post_loop_literal:
  "foldE (post_step hs) ks flat = Inr flat' \<Longrightarrow> map_of hs k = Some (Literal l) \<Longrightarrow>
   map_of flat' k = map_of flat k"
proof (induction ks arbitrary: flat)
  case (Cons k' ks)
  then show ?case
    by (cases "post_step hs flat k'") (auto dest: post_step_literal)
qed simp

lemma get_hypers_flat:
  "get_hypers bns self actions = Inr (flat, main, net) \<Longrightarrow>
   \<exists>flat0. foldE (pre_step (self_hypers self)) actions [] = Inr flat0 \<and>
     foldE (post_step (self_hypers self))
       (map fst (dict_update flat0 (self_hardcoded self)))
       (dict_update flat0 (self_hardcoded self)) = Inr flat"
  unfolding get_hypers_def Let_def
  by (auto simp: bindR_eq_Inr)

text \<open>
  Claim C9: in an environment made by \<^verbatim>\<open>__init__\<close>, for every actions mapping, the record
  returned by \<^verbatim>\<open>get_hypers\<close> maps each hard-coded schema key to its schema literal, whatever
  the actions mapping holds for that key: the literals are merged after the pre-processing
  loop, and no later step changes them.
\<close>

theorem get_hypers_hardcoded_wins:
  assumes "init agent gpu_split net_type = Inr self"
      and "get_hypers build_net_spec self actions = Inr (flat, main, network)"
      and "map_of (self_hypers self) k = Some (Literal l)"
    shows "map_of flat k = Some l"
proof -
  from get_hypers_flat [OF assms(2)] obtain flat0 where
    post: "foldE (post_step (self_hypers self))
       (map fst (dict_update flat0 (self_hardcoded self)))
       (dict_update flat0 (self_hardcoded self)) = Inr flat" by blast
  have hc: "map_of (self_hardcoded self) k = Some l"
    using init_hardcoded [OF assms(1)] map_of_literals [OF assms(3)] by simp
  have d: "distinct (map fst (self_hardcoded self))"
    using init_hardcoded [OF assms(1)] init_distinct [OF assms(1)] distinct_literals by simp
  have "map_of (dict_update flat0 (self_hardcoded self)) k = Some l"
    by (rule map_of_dict_update_in [OF d hc])
  with post_loop_literal [OF post assms(3)] show ?thesis by simp
qed

(*SLOW*)
theorem get_hypers_hardcoded_wins_witness:
  "\<exists>self flat main network.
     init ''ppo_agent'' 1 ''conv2d'' = Inr self \<and>
     get_hypers (\<lambda>tree baseline. Inr (PList [])) self
       [(''net.type'', PStr ''lstm''), (''baseline_mode'', PBool False)]
        = Inr (flat, main, network) \<and>
     map_of (self_hypers self) ''net.type'' = Some (Literal (PStr ''conv2d'')) \<and>
     map_of flat ''net.type'' = Some (PStr ''conv2d'')"
proof -
  obtain self flat main network where
      i: "init ''ppo_agent'' 1 ''conv2d'' = Inr self"
    and g: "get_hypers (\<lambda>tree baseline. Inr (PList [])) self
       [(''net.type'', PStr ''lstm''), (''baseline_mode'', PBool False)]
         = Inr (flat, main, network)"
    and l: "map_of (self_hypers self) ''net.type'' = Some (Literal (PStr ''conv2d''))"
    by (simp add: eval_defs)
  from get_hypers_hardcoded_wins [OF i g l] i g l show ?thesis by blast
qed

(*ENDSLOW*)

section \<open>The winner record\<close>

lemma winner_step_pair:
  "winner_step hc acc (k, e) =
     (if k \<notin> fst ` set hc then bindR (guess_of e) (\<lambda>g. Inr (dict_set acc k g)) else Inr acc)"
  by (simp add: winner_step_def)

lemma keys_guess_record: "fst ` set (guess_record hs hc) \<subseteq> fst ` set hs"
  by (induction hs hc rule: guess_record.induct) (auto split: option.splits)

lemma in_guess_record: "(a, b) \<in> set (guess_record es hc) \<Longrightarrow> a \<in> fst ` set es"
  using keys_guess_record [of es hc] by force

lemma distinct_guess_record:
  "distinct (map fst hs) \<Longrightarrow> distinct (map fst (guess_record hs hc))"
  by (induction hs hc rule: guess_record.induct)
     (auto split: option.splits dest: in_guess_record)

lemma dict_update_fresh:
  "distinct (map fst d) \<Longrightarrow> fst ` set acc \<inter> fst ` set d = {} \<Longrightarrow>
   dict_update acc d = acc @ d"
proof (induction d arbitrary: acc)
  case (Cons a d)
  obtain k v where a: "a = (k, v)" by (cases a)
  have step: "dict_update acc (a # d) = dict_update (dict_set acc k v) d"
    by (simp add: dict_update_def a)
  from Cons.prems a have "k \<notin> fst ` set acc" by auto
  then have f: "dict_set acc k v = acc @ [(k, v)]" by (rule dict_set_fresh)
  from Cons.prems a have "distinct (map fst d)"
    and "fst ` set (acc @ [(k, v)]) \<inter> fst ` set d = {}" by auto
  from Cons.IH [OF this] have "dict_update (acc @ [(k, v)]) d = (acc @ [(k, v)]) @ d" .
  then show ?case unfolding step f by (simp add: a)
qed (simp add: dict_update_def)

lemma winner_loop:
  "distinct (map fst hs) \<Longrightarrow> fst ` set acc \<inter> fst ` set hs = {} \<Longrightarrow>
   foldE (winner_step hc) hs acc = Inr w \<Longrightarrow> w = acc @ guess_record hs hc"
proof (induction hs arbitrary: acc)
  case (Cons a hs)
  obtain k e where a: "a = (k, e)" by (cases a)
  from Cons.prems a have fresh: "k \<notin> fst ` set acc" and d: "distinct (map fst hs)"
    and knew: "k \<notin> fst ` set hs" by auto
  show ?case
  proof (cases "k \<in> fst ` set hc")
    case True
    with Cons.prems a have "foldE (winner_step hc) hs acc = Inr w"
      by (simp add: winner_step_pair)
    moreover from Cons.prems have "fst ` set acc \<inter> fst ` set hs = {}" by auto
    ultimately have "w = acc @ guess_record hs hc" using Cons.IH d by blast
    with True a show ?thesis by (cases e) (simp_all split: option.splits)
  next
    case False
    with Cons.prems a obtain g where g: "guess_of e = Inr g"
      and rest: "foldE (winner_step hc) hs (dict_set acc k g) = Inr w"
      by (auto simp: winner_step_pair bindR_eq_Inr)
    from g obtain h where e: "e = Spec h" and gh: "guess h = Some g"
      by (cases e) (auto split: option.splits)
    have "fst ` set (dict_set acc k g) \<inter> fst ` set hs = {}"
      using Cons.prems knew by (auto simp: keys_dict_set)
    from Cons.IH [OF d this rest] have "w = dict_set acc k g @ guess_record hs hc" .
    with fresh False a e gh show ?thesis by (simp add: dict_set_fresh)
  qed
qed simp

lemma post_step_inert:
  assumes "post_inert hs w" and "post_step hs w k = Inr x"
  shows "x = w"
proof (cases "map_of w k")
  case None
  with assms show ?thesis by (simp add: post_step_def)
next
  case (Some v)
  with assms(2) obtain e where e: "map_of hs k = Some e"
    by (auto simp: post_step_def dict_get_def bindR_eq_Inr split: option.splits)
  then have "(k, e) \<in> set hs" by (rule map_of_SomeD)
  with assms(1) have p: "case e of Literal l \<Rightarrow> True
        | Spec h \<Rightarrow> (case post h of None \<Rightarrow> True
             | Some f \<Rightarrow> (case map_of w k of None \<Rightarrow> True
                  | Some v \<Rightarrow> (case f v w of Inl e \<Rightarrow> False | Inr v' \<Rightarrow> v' = v)))"
    by (auto simp: post_inert_def list_all_iff)
  show ?thesis
  proof (cases e)
    case (Literal l)
    with assms(2) Some e show ?thesis by (simp add: post_step_def dict_get_def)
  next
    case (Spec h)
    show ?thesis
    proof (cases "post h")
      case None
      with assms(2) Some e Spec show ?thesis by (simp add: post_step_def dict_get_def)
    next
      case (Some f)
      with p Spec \<open>map_of w k = Some v\<close> have "f v w = Inr v" by (auto split: sum.splits)
      with assms(2) Some e Spec \<open>map_of w k = Some v\<close> show ?thesis
        by (simp add: post_step_def dict_get_def dict_set_same)
    qed
  qed
qed

lemma post_loop_inert:
  "post_inert hs w \<Longrightarrow> foldE (post_step hs) ks w = Inr flat \<Longrightarrow> flat = w"
proof (induction ks)
  case (Cons k ks)
  from Cons.prems(2) obtain x where x: "post_step hs w k = Inr x"
    and r: "foldE (post_step hs) ks x = Inr flat" by (auto simp: bindR_eq_Inr)
  from post_step_inert [OF Cons.prems(1) x] r Cons show ?case by simp
qed simp

text \<open>
  Claim C5, as stated, fails: the record passes through the \<^verbatim>\<open>post\<close> hooks. In the shipped
  schema with the guess of \<^verbatim>\<open>baseline_mode\<close> set to \<^verbatim>\<open>False\<close>, every key has a guess and
  \<^verbatim>\<open>get_winner()\<close> returns, but the \<^verbatim>\<open>post\<close> hook of \<^verbatim>\<open>gae_lambda\<close> turns its guess
  \<^verbatim>\<open>.95\<close> into \<^verbatim>\<open>None\<close>.
\<close>

(*SLOW*)
theorem get_winner_post_changes_guess:
  "\<exists>self self' flat main network.
     init ''ppo_agent'' 1 ''conv2d'' = Inr self \<and>
     get_winner no_layers (self\<lparr>self_hypers := baseline_guess_off (self_hypers self)\<rparr>)
       = (self', Inr (flat, main, network)) \<and>
     map_of (guess_record (baseline_guess_off (self_hypers self)) (self_hardcoded self))
       ''gae_lambda'' = Some (PFloat (95 / 100)) \<and>
     map_of flat ''gae_lambda'' = Some PNone"
proof -
  have "case init ''ppo_agent'' 1 ''conv2d'' of Inl e \<Rightarrow> False | Inr self \<Rightarrow>
     map_of (guess_record (baseline_guess_off (self_hypers self)) (self_hardcoded self))
       ''gae_lambda'' = Some (PFloat (95 / 100)) \<and>
     (case snd (get_winner no_layers
                 (self\<lparr>self_hypers := baseline_guess_off (self_hypers self)\<rparr>)) of
        Inl e \<Rightarrow> False
      | Inr (flat, main, network) \<Rightarrow> map_of flat ''gae_lambda'' = Some PNone)"
    by code_simp
  then show ?thesis
    by (auto split: sum.splits prod.splits simp: prod_eq_iff)
qed
(*ENDSLOW*)

text \<open>
  Claim C5, amended: given an empty actions mapping and a schema in which every key that is
  not hard-coded has a guess, \<^verbatim>\<open>get_winner\<close> without an id, when it returns, returns the
  record of the guesses of those keys merged with the hard-coded literals, provided every
  \<^verbatim>\<open>post\<close> hook of the schema returns the value it is given on that record (as the one
  \<^verbatim>\<open>post\<close> hook of the shipped schema does on the shipped guesses).
\<close>

theorem get_winner_guesses:
  assumes "distinct (map fst (self_hypers self))"
      and "get_winner build_net_spec self = (self', Inr (flat, main, network))"
      and "post_inert (self_hypers self)
             (dict_update (guess_record (self_hypers self) (self_hardcoded self))
                (self_hardcoded self))"
    shows "flat = dict_update (guess_record (self_hypers self) (self_hardcoded self))
                    (self_hardcoded self)"
proof -
  from assms(2) obtain w where
      w: "foldE (winner_step (self_hardcoded self)) (self_hypers self) [] = Inr w"
    and s: "self' = self\<lparr>self_hardcoded := dict_update w (self_hardcoded self)\<rparr>"
    and g: "get_hypers build_net_spec self' [] = Inr (flat, main, network)"
    by (auto simp: get_winner_def Let_def split: sum.splits)
  from winner_loop [OF assms(1) _ w] have w': "w = guess_record (self_hypers self) (self_hardcoded self)"
    by simp
  have dw: "distinct (map fst (dict_update w (self_hardcoded self)))"
    using assms(1) by (simp add: distinct_dict_update w' distinct_guess_record)
  have "dict_update [] (dict_update w (self_hardcoded self)) = dict_update w (self_hardcoded self)"
    using dict_update_fresh [OF dw, of "[]"] by simp
  with get_hypers_flat [OF g] s have
    "foldE (post_step (self_hypers self))
       (map fst (dict_update w (self_hardcoded self)))
       (dict_update w (self_hardcoded self)) = Inr flat" by simp
  from post_loop_inert [OF _ this] assms(3) w' show ?thesis by simp
qed


(*SLOW*)
theorem get_winner_guesses_witness:
  "\<exists>self self' flat main network.
     init ''ppo_agent'' 1 ''conv2d'' = Inr self \<and>
     distinct (map fst (self_hypers self)) \<and>
     get_winner no_layers self = (self', Inr (flat, main, network)) \<and>
     post_inert (self_hypers self)
       (dict_update (guess_record (self_hypers self) (self_hardcoded self))
          (self_hardcoded self)) \<and>
     flat = dict_update (guess_record (self_hypers self) (self_hardcoded self))
              (self_hardcoded self)"
proof -
  have "case init ''ppo_agent'' 1 ''conv2d'' of Inl e \<Rightarrow> False | Inr self \<Rightarrow>
     distinct (map fst (self_hypers self)) \<and>
     post_inert (self_hypers self)
       (dict_update (guess_record (self_hypers self) (self_hardcoded self))
          (self_hardcoded self)) \<and>
     (case snd (get_winner no_layers self) of Inl e \<Rightarrow> False | Inr r \<Rightarrow> True)"
    by code_simp
  then obtain self self' flat main network where
      i: "init ''ppo_agent'' 1 ''conv2d'' = Inr self"
    and d: "distinct (map fst (self_hypers self))"
    and p: "post_inert (self_hypers self)
       (dict_update (guess_record (self_hypers self) (self_hardcoded self))
          (self_hardcoded self))"
    and g: "get_winner no_layers self = (self', Inr (flat, main, network))"
    by (auto split: sum.splits simp: prod_eq_iff)
  from get_winner_guesses [OF d g p] i d p g show ?thesis by blast
qed
(*ENDSLOW*)

section \<open>The hydration loop stores each key at its path\<close>

lemma lookup_getitem:
  "lookup_path v ks = Some w \<Longrightarrow> getitem_walk v ks = Inr w"
  by (induction v ks rule: lookup_path.induct)
     (auto simp: in_keys_iff dict_get_def split: option.splits)

lemma setitem_dict:
  "setitem_walk (PDict d) ks val = Inr t \<Longrightarrow> ks \<noteq> [] \<Longrightarrow> is_dict t"
  by (cases ks rule: list.exhaust; cases "tl ks")
     (auto split: sum.splits bool.splits)

lemma set_then_lookup:
  "setitem_walk v ks val = Inr t \<Longrightarrow> ks \<noteq> [] \<Longrightarrow> is_dict v \<Longrightarrow>
   lookup_path t ks = Some val"
proof (induction v ks val arbitrary: t rule: setitem_walk.induct)
  case (2 v k val)
  then show ?case by (cases v) (auto simp: map_of_dict_set)
next
  case (3 v k k' ks val)
  from "3.prems" obtain d where v: "v = PDict d" by (cases v) auto
  show ?case
  proof (cases "map_of d k")
    case None
    with "3.prems" v obtain w' where
      w: "setitem_walk (PDict []) (k' # ks) val = Inr w'" and t: "t = PDict (dict_set d k w')"
      by (auto simp: in_keys_iff split: sum.splits)
    from "3.IH"(2) [of False "PDict (dict_set d k (PDict []))" w'] v None w
    have "lookup_path w' (k' # ks) = Some val" by (simp add: in_keys_iff)
    with t show ?thesis by (simp add: map_of_dict_set)
  next
    case (Some w)
    with "3.prems" v obtain w' where
      w: "setitem_walk w (k' # ks) val = Inr w'" and t: "t = PDict (dict_set d k w')"
      by (auto simp: in_keys_iff dict_get_def split: sum.splits)
    have dw: "is_dict w" using w setitem_non_dict [of w k' ks val] by auto
    from "3.IH"(1) [of True w w'] v Some w dw
    have "lookup_path w' (k' # ks) = Some val" by (simp add: in_keys_iff dict_get_def)
    with t show ?thesis by (simp add: map_of_dict_set)
  qed
qed simp


lemma independent_Cons:
  "independent (k # p) (k # q) \<Longrightarrow> independent p q"
  by (simp add: independent_def)

lemma set_other:
  "setitem_walk v p val = Inr t \<Longrightarrow> lookup_path v q = Some w \<Longrightarrow> independent p q \<Longrightarrow>
   is_dict v \<Longrightarrow> lookup_path t q = Some w"
proof (induction v p val arbitrary: t q w rule: setitem_walk.induct)
  case (1 v val)
  then show ?case by (simp add: independent_def)
next
  case (2 v k val)
  from "2.prems" obtain d where v: "v = PDict d" by (cases v) auto
  from "2.prems" obtain k2 qs where q: "q = k2 # qs" and ne: "k2 \<noteq> k"
    by (cases q) (auto simp: independent_def)
  with "2.prems" v show ?case by (auto simp: map_of_dict_set)
next
  case (3 v k k' ks val)
  from "3.prems" obtain d where v: "v = PDict d" by (cases v) auto
  from "3.prems" obtain k2 qs where q: "q = k2 # qs"
    by (cases q) (auto simp: independent_def)
  from "3.prems"(1) v obtain u' where t: "t = PDict (dict_set d k u')"
    by (auto simp: in_keys_iff dict_get_def split: sum.splits option.splits)
  show ?case
  proof (cases "k2 = k")
    case False
    with "3.prems" v q t show ?thesis by (simp add: map_of_dict_set)
  next
    case True
    with "3.prems"(2) v q obtain u where u: "map_of d k = Some u" and lu: "lookup_path u qs = Some w"
      by (auto split: option.splits)
    with "3.prems"(1) v obtain u2 where
      s: "setitem_walk u (k' # ks) val = Inr u2" and t2: "t = PDict (dict_set d k u2)"
      by (auto simp: in_keys_iff dict_get_def split: sum.splits)
    have du: "is_dict u" using s setitem_non_dict [of u k' ks val] by auto
    have ind: "independent (k' # ks) qs"
      using "3.prems"(3) q True by (simp add: independent_def)
    from "3.IH"(1) [of True u u2 qs w] v u s lu ind du
    have "lookup_path u2 qs = Some w" by (simp add: in_keys_iff dict_get_def)
    with t2 q True show ?thesis by (simp add: map_of_dict_set)
  qed
qed

lemma update_other:
  "k \<notin> fst ` set e \<Longrightarrow>
   lookup_path (PDict (dict_update d e)) (k # ks) = lookup_path (PDict d) (k # ks)"
  by (simp add: map_of_dict_update_out)

lemma hydrate_key_cases:
  "hydrate_key hs flat (PDict d) k v = Inr obj' \<Longrightarrow>
    (case run_hydrate hs flat k v of
       Inl e \<Rightarrow> DotDict_setitem (PDict d) k v = Inr obj'
     | Inr (PDict e') \<Rightarrow> obj' = PDict (dict_update d e')
     | Inr x \<Rightarrow> DotDict_setitem (PDict d) k x = Inr obj')"
  by (auto simp: hydrate_key_def store_hydrated_def split: sum.splits pyval.splits)

lemma hydrate_key_dict:
  "hydrate_key hs flat (PDict d) k v = Inr obj' \<Longrightarrow> is_dict obj'"
  by (drule hydrate_key_cases)
     (auto simp: DotDict_setitem_def split_on_nonempty split: sum.splits pyval.splits
           dest: setitem_dict)

lemma hydrate_key_preserve:
  assumes "hydrate_key hs flat (PDict d) k v = Inr obj'"
      and "lookup_path (PDict d) (q # qs) = Some w"
      and "independent (split_on CHR ''.'' k) (q # qs)"
      and "\<And>e'. run_hydrate hs flat k v = Inr (PDict e') \<Longrightarrow> q \<notin> fst ` set e'"
    shows "lookup_path obj' (q # qs) = Some w"
proof -
  note c = hydrate_key_cases [OF assms(1)]
  show ?thesis
  proof (cases "run_hydrate hs flat k v")
    case (Inl e)
    with c have "setitem_walk (PDict d) (split_on CHR ''.'' k) v = Inr obj'"
      by (simp add: DotDict_setitem_def)
    from set_other [OF this assms(2) assms(3)] show ?thesis by simp
  next
    case (Inr x)
    show ?thesis
    proof (cases "is_dict x")
      case True
      then obtain e' where x: "x = PDict e'" by (cases x) auto
      with c Inr have o: "obj' = PDict (dict_update d e')" by simp
      from assms(4) [of e'] Inr x have "q \<notin> fst ` set e'" by simp
      from update_other [OF this, of d qs] assms(2) o show ?thesis by simp
    next
      case False
      with c Inr have "setitem_walk (PDict d) (split_on CHR ''.'' k) x = Inr obj'"
        by (cases x) (simp_all add: DotDict_setitem_def)
      from set_other [OF this assms(2) assms(3)] show ?thesis by simp
    qed
  qed
qed

lemma hydrate_key_stores:
  assumes "hydrate_key hs flat (PDict d) k v = Inr obj'"
      and "\<And>e'. run_hydrate hs flat k v \<noteq> Inr (PDict e')"
    shows "lookup_path obj' (split_on CHR ''.'' k)
             = Some (case run_hydrate hs flat k v of Inl e \<Rightarrow> v | Inr x \<Rightarrow> x)"
proof -
  note c = hydrate_key_cases [OF assms(1)]
  show ?thesis
  proof (cases "run_hydrate hs flat k v")
    case (Inl e)
    with c have "setitem_walk (PDict d) (split_on CHR ''.'' k) v = Inr obj'"
      by (simp add: DotDict_setitem_def)
    from set_then_lookup [OF this split_on_nonempty] Inl show ?thesis by simp
  next
    case (Inr x)
    with assms(2) have "\<not> is_dict x" by (cases x) auto
    with c Inr have "setitem_walk (PDict d) (split_on CHR ''.'' k) x = Inr obj'"
      by (cases x) (simp_all add: DotDict_setitem_def)
    from set_then_lookup [OF this split_on_nonempty] Inr show ?thesis by simp
  qed
qed


lemma hydrate_step_pair:
  "hydrate_step self flat (m, c) (k, v) =
     bindR (dict_get hypers (self_agent self)) (\<lambda>agent_sec.
       if k \<in> fst ` set agent_sec
       then bindR (hydrate_key (self_hypers self) flat m k v) (\<lambda>m'. Inr (m', c))
       else bindR (hydrate_key (self_hypers self) flat c k v) (\<lambda>c'. Inr (m, c')))"
  by (simp add: hydrate_step_def)

lemma hydrate_loop_dicts:
  "foldE (hydrate_step self flat) ys (m, c) = Inr (m', c') \<Longrightarrow> is_dict m \<Longrightarrow> is_dict c \<Longrightarrow>
   is_dict m' \<and> is_dict c'"
proof (induction ys arbitrary: m c)
  case (Cons a ys)
  obtain k v where a: "a = (k, v)" by (cases a)
  from Cons.prems obtain dm dc where m: "m = PDict dm" and c: "c = PDict dc"
    by (cases m; cases c) auto
  from Cons.prems(1) a obtain m1 c1 where
    st: "hydrate_step self flat (m, c) (k, v) = Inr (m1, c1)"
    and r: "foldE (hydrate_step self flat) ys (m1, c1) = Inr (m', c')"
    by (auto simp: bindR_eq_Inr)
  from st m c have "is_dict m1 \<and> is_dict c1"
    by (auto simp: hydrate_step_pair bindR_eq_Inr dest: hydrate_key_dict split: if_splits)
  with Cons.IH [OF r] show ?case by simp
qed simp

lemma hydrate_loop_preserve:
  assumes "foldE (hydrate_step self flat) ys (m, c) = Inr (m', c')"
      and "is_dict m" and "is_dict c"
      and "map_of hypers (self_agent self) = Some sec"
      and "lookup_path (if A then m else c) (q # qs) = Some w"
      and "\<And>k v. (k, v) \<in> set ys \<Longrightarrow> (k \<in> fst ` set sec) = A \<Longrightarrow>
             independent (split_on CHR ''.'' k) (q # qs) \<and>
             (\<forall>e'. run_hydrate (self_hypers self) flat k v = Inr (PDict e') \<longrightarrow>
                   q \<notin> fst ` set e')"
    shows "lookup_path (if A then m' else c') (q # qs) = Some w"
  using assms
proof (induction ys arbitrary: m c)
  case (Cons a ys)
  obtain k v where a: "a = (k, v)" by (cases a)
  from Cons.prems obtain dm dc where m: "m = PDict dm" and c: "c = PDict dc"
    by (cases m; cases c) auto
  from Cons.prems(1) a obtain m1 c1 where
    st: "hydrate_step self flat (m, c) (k, v) = Inr (m1, c1)"
    and r: "foldE (hydrate_step self flat) ys (m1, c1) = Inr (m', c')"
    by (auto simp: bindR_eq_Inr)
  have d1: "is_dict m1" "is_dict c1"
    using st m c
    by (auto simp: hydrate_step_pair bindR_eq_Inr dest: hydrate_key_dict split: if_splits)
  have ind: "(k \<in> fst ` set sec) = A \<Longrightarrow>
       independent (split_on CHR ''.'' k) (q # qs) \<and>
       (\<forall>e'. run_hydrate (self_hypers self) flat k v = Inr (PDict e') \<longrightarrow> q \<notin> fst ` set e')"
    using Cons.prems(6) [of k v] a by simp
  have keep: "lookup_path (if A then m1 else c1) (q # qs) = Some w"
  proof (cases "k \<in> fst ` set sec")
    case True
    with st Cons.prems(4) m have hk: "hydrate_key (self_hypers self) flat (PDict dm) k v = Inr m1"
      and c1: "c1 = c" by (auto simp: hydrate_step_pair dict_get_def bindR_eq_Inr)
    show ?thesis
    proof (cases A)
      case True
      with Cons.prems(5) m have l: "lookup_path (PDict dm) (q # qs) = Some w" by simp
      from ind True \<open>k \<in> fst ` set sec\<close>
      have i: "independent (split_on CHR ''.'' k) (q # qs)"
        and n: "\<And>e'. run_hydrate (self_hypers self) flat k v = Inr (PDict e') \<Longrightarrow> q \<notin> fst ` set e'"
        by auto
      from hydrate_key_preserve [OF hk l i n] True show ?thesis by simp
    next
      case False
      with Cons.prems(5) c1 show ?thesis by simp
    qed
  next
    case False
    with st Cons.prems(4) c have hk: "hydrate_key (self_hypers self) flat (PDict dc) k v = Inr c1"
      and m1: "m1 = m" by (auto simp: hydrate_step_pair dict_get_def bindR_eq_Inr)
    show ?thesis
    proof (cases A)
      case True
      with Cons.prems(5) m1 show ?thesis by simp
    next
      case A: False
      with Cons.prems(5) c have l: "lookup_path (PDict dc) (q # qs) = Some w" by simp
      from ind A False
      have i: "independent (split_on CHR ''.'' k) (q # qs)"
        and n: "\<And>e'. run_hydrate (self_hypers self) flat k v = Inr (PDict e') \<Longrightarrow> q \<notin> fst ` set e'"
        by auto
      from hydrate_key_preserve [OF hk l i n] A show ?thesis by simp
    qed
  qed
  show ?case
    by (rule Cons.IH [OF r d1 Cons.prems(4) keep]) (use Cons.prems(6) in auto)
qed simp


lemma hydrate_loop_lookup:
  assumes loop: "foldE (hydrate_step self flat) (xs @ (k, v) # ys) (PDict [], PDict []) = Inr (m, c)"
      and agent: "map_of hypers (self_agent self) = Some sec"
      and nodict: "\<And>e'. run_hydrate (self_hypers self) flat k v \<noteq> Inr (PDict e')"
      and others: "\<And>k' v'. (k', v') \<in> set ys \<Longrightarrow>
             independent (split_on CHR ''.'' k') (split_on CHR ''.'' k) \<and>
             (\<forall>e'. run_hydrate (self_hypers self) flat k' v' = Inr (PDict e') \<longrightarrow>
                   hd (split_on CHR ''.'' k) \<notin> fst ` set e')"
    shows "lookup_path (if k \<in> fst ` set sec then m else c) (split_on CHR ''.'' k)
             = Some (case run_hydrate (self_hypers self) flat k v of Inl e \<Rightarrow> v | Inr x \<Rightarrow> x)"
proof -
  obtain q qs where q: "split_on CHR ''.'' k = q # qs"
    using split_on_nonempty [of "CHR ''.''" k] by (cases "split_on CHR ''.'' k") auto
  from loop obtain m1 c1 m2 c2 where
      l1: "foldE (hydrate_step self flat) xs (PDict [], PDict []) = Inr (m1, c1)"
    and st: "hydrate_step self flat (m1, c1) (k, v) = Inr (m2, c2)"
    and l2: "foldE (hydrate_step self flat) ys (m2, c2) = Inr (m, c)"
    by (auto simp: foldE_append bindR_eq_Inr)
  from hydrate_loop_dicts [OF l1] obtain dm dc where m1: "m1 = PDict dm" and c1: "c1 = PDict dc"
    by (cases m1; cases c1) auto
  have d2: "is_dict m2" "is_dict c2"
    using st m1 c1
    by (auto simp: hydrate_step_pair bindR_eq_Inr dest: hydrate_key_dict split: if_splits)
  let ?x = "case run_hydrate (self_hypers self) flat k v of Inl e \<Rightarrow> v | Inr x \<Rightarrow> x"
  have stored: "lookup_path (if k \<in> fst ` set sec then m2 else c2) (q # qs) = Some ?x"
  proof (cases "k \<in> fst ` set sec")
    case True
    with st agent m1 have "hydrate_key (self_hypers self) flat (PDict dm) k v = Inr m2"
      by (auto simp: hydrate_step_pair dict_get_def bindR_eq_Inr)
    from hydrate_key_stores [OF this nodict] True q show ?thesis by simp
  next
    case False
    with st agent c1 have "hydrate_key (self_hypers self) flat (PDict dc) k v = Inr c2"
      by (auto simp: hydrate_step_pair dict_get_def bindR_eq_Inr)
    from hydrate_key_stores [OF this nodict] False q show ?thesis by simp
  qed
  have "lookup_path (if k \<in> fst ` set sec then m else c) (q # qs) = Some ?x"
    by (rule hydrate_loop_preserve [OF l2 d2 agent stored]) (use others q in auto)
  with q show ?thesis by simp
qed

lemma no_clash_D:
  "no_clash hs flat k \<Longrightarrow> (k', v') \<in> set flat \<Longrightarrow> k' \<noteq> k \<Longrightarrow>
   independent (split_on CHR ''.'' k') (split_on CHR ''.'' k) \<and>
   (\<forall>e'. run_hydrate hs flat k' v' = Inr (PDict e') \<longrightarrow>
         hd (split_on CHR ''.'' k) \<notin> fst ` set e')"
proof -
  assume c: "no_clash hs flat k" and i: "(k', v') \<in> set flat" and n: "k' \<noteq> k"
  from c i have "k' = k \<or>
       (independent (split_on CHR ''.'' k') (split_on CHR ''.'' k) \<and>
        (case run_hydrate hs flat k' v' of
           Inr (PDict e') \<Rightarrow> hd (split_on CHR ''.'' k) \<notin> fst ` set e'
         | _ \<Rightarrow> True))"
    unfolding no_clash_def list_all_iff by fast
  with n show ?thesis
    by (cases "run_hydrate hs flat k' v'") (simp_all split: pyval.splits)
qed

lemma hydrate_loop_at:
  assumes loop: "foldE (hydrate_step self flat) flat (PDict [], PDict []) = Inr (m, c)"
      and agent: "map_of hypers (self_agent self) = Some sec"
      and dist: "distinct (map fst flat)" and kv: "(k, v) \<in> set flat"
      and nodict: "\<And>e'. run_hydrate (self_hypers self) flat k v \<noteq> Inr (PDict e')"
      and clash: "no_clash (self_hypers self) flat k"
    shows "DotDict_getitem (if k \<in> fst ` set sec then m else c) k
             = Inr (case run_hydrate (self_hypers self) flat k v of Inl e \<Rightarrow> v | Inr x \<Rightarrow> x)"
proof -
  from kv obtain xs ys where f: "flat = xs @ (k, v) # ys" by (auto dest: split_list)
  with dist have nk: "k \<notin> fst ` set ys" by auto
  have "foldE (hydrate_step self flat) (xs @ (k, v) # ys) (PDict [], PDict []) = Inr (m, c)"
    using loop f by simp
  from hydrate_loop_lookup [OF this agent nodict]
  have "lookup_path (if k \<in> fst ` set sec then m else c) (split_on CHR ''.'' k)
             = Some (case run_hydrate (self_hypers self) flat k v of Inl e \<Rightarrow> v | Inr x \<Rightarrow> x)"
  proof this
    fix k' v' assume "(k', v') \<in> set ys"
    with f nk have "(k', v') \<in> set flat" and "k' \<noteq> k" by force+
    from no_clash_D [OF clash this]
    show "independent (split_on CHR ''.'' k') (split_on CHR ''.'' k) \<and>
          (\<forall>e'. run_hydrate (self_hypers self) flat k' v' = Inr (PDict e') \<longrightarrow>
                hd (split_on CHR ''.'' k) \<notin> fst ` set e')" .
  qed
  then show ?thesis by (simp add: DotDict_getitem_def lookup_getitem)
qed

text \<open>
  Claim C3, as stated, fails for \<^verbatim>\<open>post\<close> hooks: the post-processing loop has no
  \<^verbatim>\<open>try\<close>. In \<^verbatim>\<open>get_hypers({'gae_lambda': .95})\<close> the \<^verbatim>\<open>post\<close> hook of \<^verbatim>\<open>gae_lambda\<close>
  reads \<^verbatim>\<open>others['baseline_mode']\<close>, and its \<^verbatim>\<open>KeyError\<close> leaves \<^verbatim>\<open>get_hypers\<close>.
\<close>

(*SLOW*)
theorem get_hypers_post_hook_propagates:
  "\<exists>self. init ''ppo_agent'' 1 ''conv2d'' = Inr self \<and>
     gae_lambda_post (PFloat (95 / 100))
       [(''gae_lambda'', PFloat (95 / 100)), (''net.type'', PStr ''conv2d'')]
       = Inl (KeyError (PStr ''baseline_mode'')) \<and>
     get_hypers no_layers self [(''gae_lambda'', PFloat (95 / 100))]
       = Inl (KeyError (PStr ''baseline_mode''))"
proof -
  have "case init ''ppo_agent'' 1 ''conv2d'' of Inl e \<Rightarrow> False | Inr self \<Rightarrow>
     gae_lambda_post (PFloat (95 / 100))
       [(''gae_lambda'', PFloat (95 / 100)), (''net.type'', PStr ''conv2d'')]
       = Inl (KeyError (PStr ''baseline_mode'')) \<and>
     (case get_hypers no_layers self [(''gae_lambda'', PFloat (95 / 100))] of
        Inl e \<Rightarrow> e = KeyError (PStr ''baseline_mode'') | Inr r \<Rightarrow> False)"
    by code_simp
  then show ?thesis by (auto split: sum.splits)
qed
(*ENDSLOW*)

text \<open>
  Claim C3, amended: for every key whose \<^verbatim>\<open>hydrate\<close> hook raises, the hydration step
  catches the exception and assigns the pre-hydration value to the key's dotted path in its
  target tree, as for a key without a hook (an exception of that assignment itself is not
  caught). When the hydration loop completes and no other key of the record gets in the way
  of that path, the tree it returns holds the pre-hydration value at the path.
  No such recovery exists for \<^verbatim>\<open>post\<close> hooks.
\<close>

theorem hydrate_failure_falls_back:
  assumes "foldE (hydrate_step self flat) flat (PDict [], PDict []) = Inr (main, custom_tree)"
      and "map_of hypers (self_agent self) = Some agent_sec"
      and "distinct (map fst flat)" and "(k, v) \<in> set flat"
      and "run_hydrate (self_hypers self) flat k v = Inl e"
      and "no_clash (self_hypers self) flat k"
    shows "(\<forall>obj. hydrate_key (self_hypers self) flat obj k v = DotDict_setitem obj k v) \<and>
           DotDict_getitem (if k \<in> fst ` set agent_sec then main else custom_tree) k = Inr v"
proof
  show "\<forall>obj. hydrate_key (self_hypers self) flat obj k v = DotDict_setitem obj k v"
    using assms(5) by (simp add: hydrate_key_def)
  have "\<And>e'. run_hydrate (self_hypers self) flat k v \<noteq> Inr (PDict e')"
    using assms(5) by simp
  from hydrate_loop_at [OF assms(1-4) this assms(6)] assms(5)
  show "DotDict_getitem (if k \<in> fst ` set agent_sec then main else custom_tree) k = Inr v"
    by simp
qed


(*SLOW*)
theorem hydrate_failure_falls_back_witness:
  "\<exists>self agent_sec flat main custom_tree.
     init ''ppo_agent'' 1 ''conv2d'' = Inr self \<and>
     foldE (hydrate_step self flat) flat (PDict [], PDict []) = Inr (main, custom_tree) \<and>
     map_of hypers (self_agent self) = Some agent_sec \<and>
     distinct (map fst flat) \<and>
     (''entropy_regularization'', PStr ''x'') \<in> set flat \<and>
     run_hydrate (self_hypers self) flat ''entropy_regularization'' (PStr ''x'') = Inl TypeError \<and>
     no_clash (self_hypers self) flat ''entropy_regularization'' \<and>
     ''entropy_regularization'' \<in> fst ` set agent_sec \<and>
     DotDict_getitem main ''entropy_regularization'' = Inr (PStr ''x'')"
proof -
  have "case init ''ppo_agent'' 1 ''conv2d'' of Inl e \<Rightarrow> False | Inr self \<Rightarrow>
     (let flat = dict_set (dict_update (guess_record (self_hypers self) (self_hardcoded self))
                    (self_hardcoded self)) ''entropy_regularization'' (PStr ''x'')
      in case map_of hypers (self_agent self) of None \<Rightarrow> False | Some agent_sec \<Rightarrow>
        distinct (map fst flat) \<and>
        (''entropy_regularization'', PStr ''x'') \<in> set flat \<and>
        (case run_hydrate (self_hypers self) flat ''entropy_regularization'' (PStr ''x'') of
           Inl e \<Rightarrow> e = TypeError | Inr x \<Rightarrow> False) \<and>
        no_clash (self_hypers self) flat ''entropy_regularization'' \<and>
        ''entropy_regularization'' \<in> fst ` set agent_sec \<and>
        (case foldE (hydrate_step self flat) flat (PDict [], PDict []) of
           Inl e \<Rightarrow> False | Inr r \<Rightarrow> True))"
    by code_simp
  then obtain self where i: "init ''ppo_agent'' 1 ''conv2d'' = Inr self"
    and R: "let flat = dict_set (dict_update (guess_record (self_hypers self) (self_hardcoded self))
                    (self_hardcoded self)) ''entropy_regularization'' (PStr ''x'')
      in case map_of hypers (self_agent self) of None \<Rightarrow> False | Some agent_sec \<Rightarrow>
        distinct (map fst flat) \<and>
        (''entropy_regularization'', PStr ''x'') \<in> set flat \<and>
        (case run_hydrate (self_hypers self) flat ''entropy_regularization'' (PStr ''x'') of
           Inl e \<Rightarrow> e = TypeError | Inr x \<Rightarrow> False) \<and>
        no_clash (self_hypers self) flat ''entropy_regularization'' \<and>
        ''entropy_regularization'' \<in> fst ` set agent_sec \<and>
        (case foldE (hydrate_step self flat) flat (PDict [], PDict []) of
           Inl e \<Rightarrow> False | Inr r \<Rightarrow> True)"
    by (cases "init ''ppo_agent'' 1 ''conv2d''") simp_all
  define flat where "flat = dict_set (dict_update (guess_record (self_hypers self)
      (self_hardcoded self)) (self_hardcoded self)) ''entropy_regularization'' (PStr ''x'')"
  from R obtain agent_sec where a: "map_of hypers (self_agent self) = Some agent_sec"
    and d: "distinct (map fst flat)"
    and m: "(''entropy_regularization'', PStr ''x'') \<in> set flat"
    and r0: "case run_hydrate (self_hypers self) flat ''entropy_regularization'' (PStr ''x'') of
           Inl e \<Rightarrow> e = TypeError | Inr x \<Rightarrow> False"
    and n: "no_clash (self_hypers self) flat ''entropy_regularization''"
    and k: "''entropy_regularization'' \<in> fst ` set agent_sec"
    and l0: "case foldE (hydrate_step self flat) flat (PDict [], PDict []) of
           Inl e \<Rightarrow> False | Inr r \<Rightarrow> True"
    unfolding Let_def flat_def [symmetric]
    by (cases "map_of hypers (self_agent self)") simp_all
  from r0 have r: "run_hydrate (self_hypers self) flat ''entropy_regularization'' (PStr ''x'')
              = Inl TypeError"
    by (cases "run_hydrate (self_hypers self) flat ''entropy_regularization'' (PStr ''x'')")
       simp_all
  from l0 obtain main custom_tree where
    l: "foldE (hydrate_step self flat) flat (PDict [], PDict []) = Inr (main, custom_tree)"
    by (cases "foldE (hydrate_step self flat) flat (PDict [], PDict [])") auto
  from hydrate_failure_falls_back [OF l a d m r n] k
  have "DotDict_getitem main ''entropy_regularization'' = Inr (PStr ''x'')" by simp
  with i l a d m r n k show ?thesis by blast
qed
(*ENDSLOW*)

end
